theory Spec2Isabelle
  imports Main "HOL-Library.Multiset"
begin

section \<open>The tasks table and the request bodies\<close>

text \<open>
  The backend keeps one row per task in the PostgreSQL table \<open>tasks\<close>. Its declaration, the
  seed rows and the zod input schemas are in src/backend/db.sql; the Express handlers of
  the three mutating routes, POST /api/tasks, PATCH /api/tasks/:task_id and
  DELETE /api/tasks/:task_id, are in src/backend/openapi.yaml (after the API description).

  Each handler is embedded as a function from the database before the request to the HTTP
  outcome and the database after it. A table is the list of its rows; an UPDATE maps over
  the list, a DELETE filters it, and a statement that PostgreSQL refuses is \<open>None\<close>. The
  database after a request is the one the handler's connection sees when the handler
  answers; every request is taken to start outside a transaction, so that the ROLLBACK of
  a catch block restores the database the handler started from. The clock (\<open>Date.now()\<close>)
  and the fresh id (\<open>uuidv4()\<close>) are parameters.
\<close>

datatype priority = low | medium | high

record task =
  id' :: string
  user_id :: string
  category_id :: "string option"
  title :: string
  description :: "string option"
  due_date_at :: "int option"
  priority :: priority
  is_completed :: bool
  completed_at :: "int option"
  order_index :: int
  created_at :: int
  updated_at :: int

record db =
  tasks :: "task list"
  categories :: "(string \<times> string) list"  \<comment> \<open>(id, user_id) of each category row\<close>

text \<open>
  A JSON body field that may be absent is an \<open>option\<close> (\<open>None\<close> is JavaScript's
  \<open>undefined\<close>); a field that may also be \<open>null\<close> is an \<open>option option\<close>.
\<close>

record createTaskInput =
  c_category_id :: "string option option"
  c_title :: string
  c_description :: "string option option"
  c_due_date_at :: "int option option"
  c_priority :: "priority option"
  c_order_index :: "int option"

record updateTaskInput =
  u_category_id :: "string option option"
  u_title :: "string option"
  u_description :: "string option option"
  u_due_date_at :: "int option option"
  u_priority :: "priority option"
  u_is_completed :: "bool option"
  u_completed_at :: "int option option"
  u_order_index :: "int option"

datatype error =
    VALIDATION_FAILED      \<comment> \<open>400, a ZodError of the input schema\<close>
  | CATEGORY_NOT_FOUND     \<comment> \<open>400\<close>
  | NEGATIVE_INDEX         \<comment> \<open>400, "Order index cannot be negative."\<close>
  | OUT_OF_BOUNDS          \<comment> \<open>400, "Order index n is out of bounds."\<close>
  | NOT_FOUND              \<comment> \<open>404\<close>
  | INTERNAL_ERROR         \<comment> \<open>500, any other exception, after ROLLBACK\<close>

section \<open>The input schemas (zod)\<close>

definition createTaskInputSchema :: "createTaskInput \<Rightarrow> bool" where
  "createTaskInputSchema b \<longleftrightarrow>
     1 \<le> length (c_title b) \<and> length (c_title b) \<le> 255 \<and>
     (case c_description b of Some (Some d) \<Rightarrow> length d \<le> 5000 | _ \<Rightarrow> True) \<and>
     (case c_order_index b of None \<Rightarrow> False | Some n \<Rightarrow> 0 \<le> n)"

definition updateTaskInputSchema :: "updateTaskInput \<Rightarrow> bool" where
  "updateTaskInputSchema b \<longleftrightarrow>
     (case u_title b of None \<Rightarrow> True | Some t \<Rightarrow> 1 \<le> length t \<and> length t \<le> 255) \<and>
     (case u_description b of Some (Some d) \<Rightarrow> length d \<le> 5000 | _ \<Rightarrow> True) \<and>
     (case u_order_index b of None \<Rightarrow> True | Some n \<Rightarrow> 0 \<le> n)"

section \<open>SQL statements over the table\<close>

datatype column =
  ID | USER_ID | CATEGORY_ID | TITLE | DESCRIPTION | DUE_DATE_AT | PRIORITY
  | IS_COMPLETED | COMPLETED_AT | ORDER_INDEX | CREATED_AT | UPDATED_AT

datatype sqlval = V_NULL | V_INT int | V_TEXT string | V_BOOL bool

text \<open>\<open>order_index\<close> is an INTEGER column: a value outside 32 bits is refused.\<close>

definition int4 :: "int \<Rightarrow> bool" where
  "int4 v \<longleftrightarrow> - 2147483648 \<le> v \<and> v \<le> 2147483647"

definition priority_text :: "priority \<Rightarrow> string" where
  "priority_text p = (case p of low \<Rightarrow> ''low'' | medium \<Rightarrow> ''medium'' | high \<Rightarrow> ''high'')"

definition text_priority :: "string \<Rightarrow> priority option" where
  "text_priority x =
     (if x = ''low'' then Some low else if x = ''medium'' then Some medium
      else if x = ''high'' then Some high else None)"

text \<open>
  One assignment \<open>column = value\<close> on one row; \<open>None\<close> is the statement's failure (a NULL
  in a column declared NOT NULL, a value of the wrong type, an integer out of range).
\<close>

definition set_column :: "column \<Rightarrow> sqlval \<Rightarrow> task \<Rightarrow> task option" where
  "set_column c v t =
     (case c of
        ID \<Rightarrow> (case v of V_TEXT x \<Rightarrow> Some (t\<lparr>id' := x\<rparr>) | _ \<Rightarrow> None)
      | USER_ID \<Rightarrow> (case v of V_TEXT x \<Rightarrow> Some (t\<lparr>user_id := x\<rparr>) | _ \<Rightarrow> None)
      | CATEGORY_ID \<Rightarrow>
          (case v of V_TEXT x \<Rightarrow> Some (t\<lparr>category_id := Some x\<rparr>)
           | V_NULL \<Rightarrow> Some (t\<lparr>category_id := None\<rparr>) | _ \<Rightarrow> None)
      | TITLE \<Rightarrow> (case v of V_TEXT x \<Rightarrow> Some (t\<lparr>title := x\<rparr>) | _ \<Rightarrow> None)
      | DESCRIPTION \<Rightarrow>
          (case v of V_TEXT x \<Rightarrow> Some (t\<lparr>description := Some x\<rparr>)
           | V_NULL \<Rightarrow> Some (t\<lparr>description := None\<rparr>) | _ \<Rightarrow> None)
      | DUE_DATE_AT \<Rightarrow>
          (case v of V_INT x \<Rightarrow> Some (t\<lparr>due_date_at := Some x\<rparr>)
           | V_NULL \<Rightarrow> Some (t\<lparr>due_date_at := None\<rparr>) | _ \<Rightarrow> None)
      | PRIORITY \<Rightarrow>
          (case v of
             V_TEXT x \<Rightarrow> (case text_priority x of None \<Rightarrow> None
                        | Some p \<Rightarrow> Some (t\<lparr>priority := p\<rparr>))
           | _ \<Rightarrow> None)
      | IS_COMPLETED \<Rightarrow> (case v of V_BOOL x \<Rightarrow> Some (t\<lparr>is_completed := x\<rparr>) | _ \<Rightarrow> None)
      | COMPLETED_AT \<Rightarrow>
          (case v of V_INT x \<Rightarrow> Some (t\<lparr>completed_at := Some x\<rparr>)
           | V_NULL \<Rightarrow> Some (t\<lparr>completed_at := None\<rparr>) | _ \<Rightarrow> None)
      | ORDER_INDEX \<Rightarrow>
          (case v of V_INT x \<Rightarrow> (if int4 x then Some (t\<lparr>order_index := x\<rparr>) else None)
           | _ \<Rightarrow> None)
      | CREATED_AT \<Rightarrow> (case v of V_INT x \<Rightarrow> Some (t\<lparr>created_at := x\<rparr>) | _ \<Rightarrow> None)
      | UPDATED_AT \<Rightarrow> (case v of V_INT x \<Rightarrow> Some (t\<lparr>updated_at := x\<rparr>) | _ \<Rightarrow> None))"

primrec set_columns :: "(column \<times> sqlval) list \<Rightarrow> task \<Rightarrow> task option" where
  "set_columns [] t = Some t"
| "set_columns (a # as) t =
     (case set_column (fst a) (snd a) t of None \<Rightarrow> None | Some t' \<Rightarrow> set_columns as t')"

text \<open>
  \<open>UPDATE tasks SET \<dots> WHERE p\<close>: every row that satisfies \<open>p\<close> is rewritten by \<open>f\<close>; one
  failing row fails the statement.
\<close>

primrec update_rows :: "(task \<Rightarrow> task option) \<Rightarrow> (task \<Rightarrow> bool) \<Rightarrow> task list \<Rightarrow> task list option" where
  "update_rows f p [] = Some []"
| "update_rows f p (t # ts) =
     (case (if p t then f t else Some t) of
        None \<Rightarrow> None
      | Some t' \<Rightarrow> (case update_rows f p ts of None \<Rightarrow> None | Some ts' \<Rightarrow> Some (t' # ts')))"

text \<open>\<open>UPDATE tasks SET order_index = order_index + d WHERE p\<close>.\<close>

definition pg_shift :: "(task \<Rightarrow> bool) \<Rightarrow> int \<Rightarrow> task list \<Rightarrow> task list option" where
  "pg_shift p d rows =
     update_rows (\<lambda>t. set_column ORDER_INDEX (V_INT (order_index t + d)) t) p rows"

text \<open>
  \<open>UPDATE tasks SET <sets> WHERE id = $1 AND user_id = $2 RETURNING \<dots>\<close>. PostgreSQL
  refuses a SET list that assigns one column twice. The result is the returned rows and
  the new table.
\<close>

definition pg_update_task ::
  "(column \<times> sqlval) list \<Rightarrow> string \<Rightarrow> string \<Rightarrow> task list \<Rightarrow> (task list \<times> task list) option" where
  "pg_update_task sets tid uid rows =
     (if \<not> distinct (map fst sets) then None
      else (case update_rows (set_columns sets) (\<lambda>t. id' t = tid \<and> user_id t = uid) rows of
              None \<Rightarrow> None
            | Some rows' \<Rightarrow> Some (filter (\<lambda>t. id' t = tid \<and> user_id t = uid) rows', rows')))"

text \<open>
  \<open>INSERT INTO tasks (<cols>) VALUES (<exprs>) RETURNING \<dots>\<close> with the parameter array
  \<open>params\<close>; an expression is the number \<open>n\<close> of a placeholder \<open>$n\<close>. PostgreSQL refuses
  the statement when the two lists differ in length, when the parameter array does not
  have exactly the parameters the statement numbers, when a column without a default is
  left out or when the primary key exists already.
\<close>

definition blank_row :: task where
  "blank_row = \<lparr> id' = [], user_id = [], category_id = None, title = [], description = None,
     due_date_at = None, priority = medium, is_completed = False, completed_at = None,
     order_index = 0, created_at = 0, updated_at = 0 \<rparr>"

definition pg_insert_task ::
  "column list \<Rightarrow> nat list \<Rightarrow> sqlval list \<Rightarrow> task list \<Rightarrow> (task \<times> task list) option" where
  "pg_insert_task cols exprs params rows =
     (if length exprs \<noteq> length cols then None
      else if \<not> distinct cols then None
      else if exprs = [] \<or> list_ex (\<lambda>n. n = 0) exprs \<or> Max (set exprs) \<noteq> length params then None
      else if \<not> list_all (\<lambda>c. c \<in> set cols) [ID, USER_ID, TITLE, ORDER_INDEX, CREATED_AT, UPDATED_AT]
        then None
      else (case set_columns (zip cols (map (\<lambda>n. params ! (n - 1)) exprs)) blank_row of
              None \<Rightarrow> None
            | Some t \<Rightarrow> if id' t \<in> set (map id' rows) then None else Some (t, rows @ [t])))"

section \<open>POST /api/tasks\<close>

definition active :: "string \<Rightarrow> task \<Rightarrow> bool" where
  \<comment> \<open>\<open>WHERE user_id = $1 AND is_completed = FALSE\<close>\<close>
  "active userId t \<longleftrightarrow> user_id t = userId \<and> \<not> is_completed t"

definition category_exists :: "db \<Rightarrow> string \<Rightarrow> string \<Rightarrow> bool" where
  \<comment> \<open>\<open>SELECT 1 FROM categories WHERE id = $1 AND user_id = $2\<close> returns a row\<close>
  "category_exists s c userId \<longleftrightarrow> (c, userId) \<in> set (categories s)"

definition opt_text :: "string option \<Rightarrow> sqlval" where
  "opt_text x = (case x of None \<Rightarrow> V_NULL | Some v \<Rightarrow> V_TEXT v)"

definition opt_int :: "int option \<Rightarrow> sqlval" where
  "opt_int x = (case x of None \<Rightarrow> V_NULL | Some v \<Rightarrow> V_INT v)"

definition nullish :: "'a option option \<Rightarrow> 'a option" where
  \<comment> \<open>\<open>undefined\<close> and \<open>null\<close> both reach the database as NULL\<close>
  "nullish x = (case x of Some (Some v) \<Rightarrow> Some v | _ \<Rightarrow> None)"

definition insertTaskQuery_columns :: "column list" where
  "insertTaskQuery_columns =
     [ID, USER_ID, CATEGORY_ID, TITLE, DESCRIPTION, DUE_DATE_AT, PRIORITY, IS_COMPLETED,
      COMPLETED_AT, ORDER_INDEX, CREATED_AT, UPDATED_AT]"

definition insertTaskQuery_values :: "nat list" where
  \<comment> \<open>\<open>VALUES ($1, $2, $3, $4, $5, $6, $7, $8, $9, $10, $11)\<close>\<close>
  "insertTaskQuery_values = [1, 2, 3, 4, 5, 6, 7, 8, 9, 10, 11]"

definition insertTaskQuery_params :: "string \<Rightarrow> createTaskInput \<Rightarrow> int \<Rightarrow> string \<Rightarrow> sqlval list" where
  "insertTaskQuery_params userId b now taskId =
     [V_TEXT taskId,
      V_TEXT userId,
      opt_text (nullish (c_category_id b)),
      V_TEXT (c_title b),
      (case nullish (c_description b) of None \<Rightarrow> V_NULL | Some d \<Rightarrow> if d = [] then V_NULL else V_TEXT d),
      opt_int (nullish (c_due_date_at b)),
      V_TEXT (priority_text (case c_priority b of None \<Rightarrow> medium | Some p \<Rightarrow> p)),
      V_BOOL False,
      V_NULL,
      V_INT 0,
      V_INT now,
      V_INT now]"

definition create_task ::
  "db \<Rightarrow> string \<Rightarrow> createTaskInput \<Rightarrow> int \<Rightarrow> string \<Rightarrow> (error + task) \<times> db" where
  "create_task s userId b now taskId =
     (if \<not> createTaskInputSchema b then (Inl VALIDATION_FAILED, s)
      else if (case c_category_id b of
                 Some (Some c) \<Rightarrow> c \<noteq> [] \<and> \<not> category_exists s c userId
               | _ \<Rightarrow> False)
        then (Inl CATEGORY_NOT_FOUND, s)
      else (case pg_shift (active userId) 1 (tasks s) of
              None \<Rightarrow> (Inl INTERNAL_ERROR, s)
            | Some shifted \<Rightarrow>
                (case pg_insert_task insertTaskQuery_columns insertTaskQuery_values
                        (insertTaskQuery_params userId b now taskId) shifted of
                   None \<Rightarrow> (Inl INTERNAL_ERROR, s)
                 | Some (row, rows') \<Rightarrow> (Inr row, s\<lparr>tasks := rows'\<rparr>))))"

section \<open>PATCH /api/tasks/:task_id\<close>

definition max_order_index :: "task list \<Rightarrow> string \<Rightarrow> int option" where
  \<comment> \<open>\<open>SELECT MAX(order_index) FROM tasks WHERE user_id = $1 AND is_completed = FALSE\<close>\<close>
  "max_order_index rows userId =
     (case map order_index (filter (active userId) rows) of
        [] \<Rightarrow> None
      | x # xs \<Rightarrow> Some (fold max xs x))"

definition js_or :: "int option \<Rightarrow> int \<Rightarrow> int" where
  \<comment> \<open>JavaScript's \<open>v || d\<close> on a number or \<open>null\<close>: \<open>null\<close> and \<open>0\<close> are both falsy\<close>
  "js_or v d = (case v of None \<Rightarrow> d | Some n \<Rightarrow> if n = 0 then d else n)"

definition field_parts :: "updateTaskInput \<Rightarrow> (column \<times> sqlval) list" where
  "field_parts b =
     (case u_title b of None \<Rightarrow> [] | Some v \<Rightarrow> [(TITLE, V_TEXT v)]) @
     (case u_description b of None \<Rightarrow> [] | Some v \<Rightarrow> [(DESCRIPTION, opt_text v)]) @
     (case u_due_date_at b of None \<Rightarrow> [] | Some v \<Rightarrow> [(DUE_DATE_AT, opt_int v)]) @
     (case u_priority b of None \<Rightarrow> [] | Some v \<Rightarrow> [(PRIORITY, V_TEXT (priority_text v))])"

definition completion_parts ::
  "task list \<Rightarrow> string \<Rightarrow> task \<Rightarrow> updateTaskInput \<Rightarrow> int \<Rightarrow> (column \<times> sqlval) list" where
  "completion_parts rows userId currentTask b now =
     (case u_is_completed b of
        None \<Rightarrow> []
      | Some newIsCompleted \<Rightarrow>
          (let oldIsCompleted = is_completed currentTask in
           [(IS_COMPLETED, V_BOOL newIsCompleted)] @
           (if newIsCompleted \<and> \<not> oldIsCompleted then [(COMPLETED_AT, V_INT now)]
            else if \<not> newIsCompleted \<and> oldIsCompleted then
              [(COMPLETED_AT, V_NULL),
               (ORDER_INDEX, V_INT (js_or (max_order_index rows userId) (- 1) + 1))]
            else if newIsCompleted \<and> oldIsCompleted then []
            else [(COMPLETED_AT, V_NULL)])))"

definition reorder_requested :: "updateTaskInput \<Rightarrow> task \<Rightarrow> int option" where
  \<comment> \<open>the guard of the reorder block; \<open>&&\<close> binds tighter than \<open>||\<close>\<close>
  "reorder_requested b currentTask =
     (case u_order_index b of
        None \<Rightarrow> None
      | Some newIndex \<Rightarrow>
          if newIndex \<noteq> order_index currentTask \<and>
             (u_is_completed b = Some False \<or>
              u_is_completed b = None \<and> \<not> is_completed currentTask)
          then Some newIndex else None)"

definition category_part :: "updateTaskInput \<Rightarrow> (column \<times> sqlval) list" where
  "category_part b = (case u_category_id b of None \<Rightarrow> [] | Some v \<Rightarrow> [(CATEGORY_ID, opt_text v)])"

text \<open>
  The final UPDATE of the handler on the table \<open>rows\<close>; \<open>s\<close> is the database the handler
  started from, to which an exception (ROLLBACK in the catch block) and an empty result
  return. The category was looked up just before, so the foreign key of \<open>category_id\<close>
  holds and is not checked again.

  The reorder block opens a transaction with BEGIN. The handler's COMMIT afterwards is
  guarded by a test for the SET part \<open>order_index = $k\<close>, with \<open>k\<close> the number of the last
  placeholder; the last placeholder is always that of \<open>updated_at\<close>, so the test fails and
  COMMIT is not sent. What becomes of the open transaction is decided by the connection
  pool and by later requests on the same connection, outside this handler; the database
  below is the one the handler's connection sees when it answers.
\<close>

definition run_update ::
  "db \<Rightarrow> task list \<Rightarrow> (column \<times> sqlval) list \<Rightarrow> string \<Rightarrow> string \<Rightarrow> (error + task) \<times> db" where
  "run_update s rows sets task_id userId =
     (case pg_update_task sets task_id userId rows of
        None \<Rightarrow> (Inl INTERNAL_ERROR, s)
      | Some (returned, rows') \<Rightarrow>
          (case returned of
             [] \<Rightarrow> (Inl NOT_FOUND, s)
           | r # _ \<Rightarrow> (Inr r, s\<lparr>tasks := rows'\<rparr>)))"

text \<open>The two range-shift statements of the reorder block.\<close>

definition reorder_shift ::
  "string \<Rightarrow> string \<Rightarrow> int \<Rightarrow> int \<Rightarrow> task list \<Rightarrow> task list option" where
  "reorder_shift userId task_id oldIndex newIndex rows =
     (if newIndex < oldIndex
      then pg_shift (\<lambda>t. active userId t \<and> order_index t \<ge> newIndex \<and>
                          order_index t < oldIndex \<and> id' t \<noteq> task_id) 1 rows
      else pg_shift (\<lambda>t. active userId t \<and> order_index t > oldIndex \<and>
                          order_index t \<le> newIndex \<and> id' t \<noteq> task_id) (- 1) rows)"

definition update_task ::
  "db \<Rightarrow> string \<Rightarrow> string \<Rightarrow> updateTaskInput \<Rightarrow> int \<Rightarrow> (error + task) \<times> db" where
  "update_task s userId task_id b now =
     (if \<not> updateTaskInputSchema b then (Inl VALIDATION_FAILED, s)
      else
       (case find (\<lambda>t. id' t = task_id \<and> user_id t = userId) (tasks s) of
          None \<Rightarrow> (Inl NOT_FOUND, s)
        | Some currentTask \<Rightarrow>
            if (case u_category_id b of
                  Some (Some c) \<Rightarrow> \<not> category_exists s c userId
                | _ \<Rightarrow> False)
            then (Inl CATEGORY_NOT_FOUND, s)
            else
             (let parts = field_parts b @ completion_parts (tasks s) userId currentTask b now;
                  rest = category_part b @ [(UPDATED_AT, V_INT now)]
              in case reorder_requested b currentTask of
                   None \<Rightarrow> run_update s (tasks s) (parts @ rest) task_id userId
                 | Some newIndex \<Rightarrow>
                     (let oldIndex = order_index currentTask in
                      if newIndex < 0 then (Inl NEGATIVE_INDEX, s)
                      else
                       (let maxOrderIndex = js_or (max_order_index (tasks s) userId) (- 1) in
                        if newIndex > maxOrderIndex + 1 then (Inl OUT_OF_BOUNDS, s)
                        else
                         (case reorder_shift userId task_id oldIndex newIndex (tasks s) of
                            None \<Rightarrow> (Inl INTERNAL_ERROR, s)
                          | Some shifted \<Rightarrow>
                              run_update s shifted
                                (parts @ [(ORDER_INDEX, V_INT newIndex)] @ rest)
                                task_id userId))))))"

section \<open>DELETE /api/tasks/:task_id\<close>

definition delete_task :: "db \<Rightarrow> string \<Rightarrow> string \<Rightarrow> (error + unit) \<times> db" where
  "delete_task s userId task_id =
     (case find (\<lambda>t. id' t = task_id \<and> user_id t = userId) (tasks s) of
        None \<Rightarrow> (Inl NOT_FOUND, s)
      | Some taskToDelete \<Rightarrow>
          (let remaining = filter (\<lambda>t. \<not> (id' t = task_id \<and> user_id t = userId)) (tasks s) in
           if length remaining = length (tasks s) then (Inl NOT_FOUND, s)
           else if \<not> is_completed taskToDelete then
             (case pg_shift (\<lambda>t. active userId t \<and> order_index t > order_index taskToDelete)
                     (- 1) remaining of
                None \<Rightarrow> (Inl INTERNAL_ERROR, s)
              | Some rows' \<Rightarrow> (Inr (), s\<lparr>tasks := rows'\<rparr>))
           else (Inr (), s\<lparr>tasks := remaining\<rparr>)))"

section \<open>Invariants of the table\<close>



definition stamped :: "task \<Rightarrow> bool" where
  \<comment> \<open>I3 on one row\<close>
  "stamped t \<longleftrightarrow> (is_completed t \<longleftrightarrow> completed_at t \<noteq> None)"

definition table_ok :: "db \<Rightarrow> bool" where
  \<comment> \<open>what the table's declaration enforces: \<open>id\<close> is the primary key, \<open>order_index\<close> an INTEGER\<close>
  "table_ok s \<longleftrightarrow> distinct (map id' (tasks s)) \<and> list_all (\<lambda>t. int4 (order_index t)) (tasks s)"

section \<open>Concrete tables and requests\<close>

text \<open>The rows that db.sql seeds for user_002 and user_003, in the file's order.\<close>

definition seed :: db where
  "seed = \<lparr> tasks =
     [\<lparr> id' = ''task_004'', user_id = ''user_002'', category_id = Some ''cat_003'',
        title = ''Buy apples'', description = Some ''Granny Smith.'',
        due_date_at = Some 1679328000000, priority = medium, is_completed = False,
        completed_at = None, order_index = 0, created_at = 1678973000000,
        updated_at = 1678973000000 \<rparr>,
      \<lparr> id' = ''task_005'', user_id = ''user_002'', category_id = Some ''cat_004'',
        title = ''Prepare for history exam'', description = Some ''Review chapters 1-5.'',
        due_date_at = Some 1679500800000, priority = high, is_completed = False,
        completed_at = None, order_index = 1, created_at = 1678973050000,
        updated_at = 1678973050000 \<rparr>,
      \<lparr> id' = ''task_008'', user_id = ''user_002'', category_id = None,
        title = ''Clean apartment'', description = Some ''Vacuum, dust, tidy up.'',
        due_date_at = Some 1679414400000, priority = medium, is_completed = False,
        completed_at = None, order_index = 2, created_at = 1678973100000,
        updated_at = 1678973100000 \<rparr>,
      \<lparr> id' = ''task_009'', user_id = ''user_003'', category_id = None,
        title = ''Research new technologies'',
        description = Some ''Look into AI models for image generation.'',
        due_date_at = None, priority = high, is_completed = False,
        completed_at = None, order_index = 0, created_at = 1679059300000,
        updated_at = 1679059300000 \<rparr>,
      \<lparr> id' = ''task_013'', user_id = ''user_002'', category_id = Some ''cat_004'',
        title = ''Write essay outline'', description = Some ''For the English literature class.'',
        due_date_at = Some 1679673600000, priority = high, is_completed = False,
        completed_at = None, order_index = 3, created_at = 1679100000000,
        updated_at = 1679100000000 \<rparr>,
      \<lparr> id' = ''task_014'', user_id = ''user_002'', category_id = Some ''cat_003'',
        title = ''Pick up dry cleaning'', description = Some ''Suit and shirts.'',
        due_date_at = None, priority = low, is_completed = True,
        completed_at = Some 1679200000000, order_index = 4, created_at = 1679100100000,
        updated_at = 1679200000000 \<rparr>],
     categories = [(''cat_003'', ''user_002''), (''cat_004'', ''user_002'')] \<rparr>"

text \<open>
  The seeded table after user_002 has deleted task_005, task_008 and task_013: the user is
  left with one incomplete task, at index 0, and one completed task.
\<close>

definition one_active :: db where
  "one_active = \<lparr> tasks = [tasks seed ! 0, tasks seed ! 3, tasks seed ! 5],
                  categories = categories seed \<rparr>"

definition no_fields :: updateTaskInput where
  \<comment> \<open>the PATCH body \<open>{}\<close>\<close>
  "no_fields = \<lparr> u_category_id = None, u_title = None, u_description = None,
     u_due_date_at = None, u_priority = None, u_is_completed = None, u_completed_at = None,
     u_order_index = None \<rparr>"

definition quick_add :: "string \<Rightarrow> int option \<Rightarrow> createTaskInput" where
  \<comment> \<open>the POST body of the dashboard's quick-add form: a title and an order_index\<close>
  "quick_add ttl oi = \<lparr> c_category_id = None, c_title = ttl, c_description = None,
     c_due_date_at = None, c_priority = None, c_order_index = oi \<rparr>"

section \<open>Facts about the SQL statements\<close>

lemmas eval_defs = update_task_def updateTaskInputSchema_def no_fields_def
  field_parts_def completion_parts_def reorder_requested_def category_part_def run_update_def
  pg_update_task_def reorder_shift_def pg_shift_def set_column_def int4_def active_def
  max_order_index_def js_or_def opt_int_def opt_text_def

lemma update_rows_map:
  assumes "\<And>t. t \<in> set rows \<Longrightarrow> p t \<Longrightarrow> f t = Some (g t)"
  shows "update_rows f p rows = Some (map (\<lambda>t. if p t then g t else t) rows)"
  using assms by (induction rows) auto

lemma update_rows_SomeD:
  "update_rows f p rows = Some rows' \<Longrightarrow> t \<in> set rows \<Longrightarrow> p t \<Longrightarrow> f t \<noteq> None"
  by (induction rows arbitrary: rows') (auto split: option.splits if_splits)

lemma update_rows_None:
  "t \<in> set rows \<Longrightarrow> p t \<Longrightarrow> f t = None \<Longrightarrow> update_rows f p rows = None"
  by (induction rows) (auto split: option.splits)

lemma set_order_index:
  "set_column ORDER_INDEX (V_INT n) t = (if int4 n then Some (t\<lparr>order_index := n\<rparr>) else None)"
  by (simp add: set_column_def)

lemma pg_shift_map:
  assumes "\<And>t. t \<in> set rows \<Longrightarrow> p t \<Longrightarrow> int4 (order_index t + d)"
  shows "pg_shift p d rows =
           Some (map (\<lambda>t. if p t then t\<lparr>order_index := order_index t + d\<rparr> else t) rows)"
  unfolding pg_shift_def
  by (rule update_rows_map) (simp add: set_order_index assms)

lemma set_columns_append:
  "set_columns (xs @ ys) t =
     (case set_columns xs t of None \<Rightarrow> None | Some t' \<Rightarrow> set_columns ys t')"
  by (induction xs arbitrary: t) (auto split: option.splits)

lemma set_column_frame:
  assumes "set_column c v t = Some t'"
  shows "c \<noteq> ID \<Longrightarrow> id' t' = id' t"
    and "c \<noteq> USER_ID \<Longrightarrow> user_id t' = user_id t"
    and "c \<noteq> ORDER_INDEX \<Longrightarrow> order_index t' = order_index t"
    and "c \<noteq> IS_COMPLETED \<Longrightarrow> is_completed t' = is_completed t"
    and "c \<noteq> COMPLETED_AT \<Longrightarrow> completed_at t' = completed_at t"
  using assms
  by (auto simp: set_column_def split: column.splits sqlval.splits option.splits if_splits)

lemma set_columns_frame:
  assumes "set_columns sets t = Some t'"
  shows "ID \<notin> fst ` set sets \<Longrightarrow> id' t' = id' t"
    and "USER_ID \<notin> fst ` set sets \<Longrightarrow> user_id t' = user_id t"
    and "ORDER_INDEX \<notin> fst ` set sets \<Longrightarrow> order_index t' = order_index t"
    and "IS_COMPLETED \<notin> fst ` set sets \<Longrightarrow> is_completed t' = is_completed t"
    and "COMPLETED_AT \<notin> fst ` set sets \<Longrightarrow> completed_at t' = completed_at t"
  using assms
  by (induction sets arbitrary: t; force split: option.splits dest: set_column_frame)+

lemma set_column_written:
  assumes "set_column c v t = Some t'"
  shows "c = ORDER_INDEX \<Longrightarrow> v = V_INT (order_index t') \<and> int4 (order_index t')"
    and "c = IS_COMPLETED \<Longrightarrow> v = V_BOOL (is_completed t')"
    and "c = COMPLETED_AT \<Longrightarrow> v = opt_int (completed_at t')"
  using assms
  by (auto simp: set_column_def opt_int_def split: sqlval.splits if_splits)

lemma set_columns_written:
  assumes "set_columns sets t = Some t'" and "distinct (map fst sets)" and "(c, v) \<in> set sets"
  shows "(c = ORDER_INDEX \<longrightarrow> v = V_INT (order_index t') \<and> int4 (order_index t')) \<and>
         (c = IS_COMPLETED \<longrightarrow> v = V_BOOL (is_completed t')) \<and>
         (c = COMPLETED_AT \<longrightarrow> v = opt_int (completed_at t'))"
  using assms
proof (induction sets arbitrary: t)
  case Nil
  then show ?case by simp
next
  case (Cons a as)
  from Cons.prems(1) obtain t1 where a: "set_column (fst a) (snd a) t = Some t1"
    and r: "set_columns as t1 = Some t'" by (auto split: option.splits)
  show ?case
  proof (cases "(c, v) = a")
    case True
    with Cons.prems(2) have notin: "c \<notin> fst ` set as" by force
    from True a have w: "set_column c v t = Some t1" by auto
    show ?thesis
      using set_columns_frame[OF r] set_column_written[OF w] notin by auto
  next
    case False
    with Cons.prems(3) have m: "(c, v) \<in> set as" by auto
    from Cons.prems(2) have d: "distinct (map fst as)" by simp
    from Cons.IH[OF r d m] show ?thesis .
  qed
qed




lemma field_parts_columns:
  "fst ` set (field_parts b) \<subseteq> {TITLE, DESCRIPTION, DUE_DATE_AT, PRIORITY}"
  by (auto simp: field_parts_def split: option.splits)

lemma category_part_columns: "fst ` set (category_part b) \<subseteq> {CATEGORY_ID}"
  by (auto simp: category_part_def split: option.splits)

lemma completion_parts_columns:
  "fst ` set (completion_parts rows u cur b now) \<subseteq> {IS_COMPLETED, COMPLETED_AT, ORDER_INDEX}"
  by (auto simp: completion_parts_def Let_def split: option.splits)

lemma completion_parts_absent:
  "u_is_completed b = None \<Longrightarrow> completion_parts rows u cur b now = []"
  by (simp add: completion_parts_def)



lemma run_update_cases:
  assumes "run_update s rows sets tid uid = (res, s')"
  obtains (failed) e where "res = Inl e" "s' = s"
  | (updated) r rest rows' where "pg_update_task sets tid uid rows = Some (r # rest, rows')"
      "res = Inr r" "s' = s\<lparr>tasks := rows'\<rparr>"
  using assms unfolding run_update_def
  by (auto split: option.splits list.splits prod.splits)

lemma update_task_cases:
  assumes "update_task s uid tid b now = (res, s')"
  obtains (failed) e where "res = Inl e" "s' = s"
  | (plain) cur r rest rows' where
      "find (\<lambda>t. id' t = tid \<and> user_id t = uid) (tasks s) = Some cur"
      "reorder_requested b cur = None"
      "pg_update_task (field_parts b @ completion_parts (tasks s) uid cur b now
          @ category_part b @ [(UPDATED_AT, V_INT now)]) tid uid (tasks s) = Some (r # rest, rows')"
      "res = Inr r" "s' = s\<lparr>tasks := rows'\<rparr>"
  | (moved) cur n shifted r rest rows' where
      "find (\<lambda>t. id' t = tid \<and> user_id t = uid) (tasks s) = Some cur"
      "reorder_requested b cur = Some n" "0 \<le> n"
      "n \<le> js_or (max_order_index (tasks s) uid) (- 1) + 1"
      "reorder_shift uid tid (order_index cur) n (tasks s) = Some shifted"
      "pg_update_task (field_parts b @ completion_parts (tasks s) uid cur b now
          @ [(ORDER_INDEX, V_INT n)] @ category_part b @ [(UPDATED_AT, V_INT now)])
          tid uid shifted = Some (r # rest, rows')"
      "res = Inr r" "s' = s\<lparr>tasks := rows'\<rparr>"
proof (cases "updateTaskInputSchema b")
  case False
  with assms failed show ?thesis by (auto simp: update_task_def)
next
  case valid: True
  show ?thesis
  proof (cases "find (\<lambda>t. id' t = tid \<and> user_id t = uid) (tasks s)")
    case None
    with assms valid failed show ?thesis by (auto simp: update_task_def)
  next
    case (Some cur)
    show ?thesis
    proof (cases "case u_category_id b of Some (Some c) \<Rightarrow> \<not> category_exists s c uid | _ \<Rightarrow> False")
      case True
      with assms valid Some failed show ?thesis by (auto simp: update_task_def)
    next
      case cat: False
      show ?thesis
      proof (cases "reorder_requested b cur")
        case None
        with assms valid Some cat
        have "run_update s (tasks s) (field_parts b @ completion_parts (tasks s) uid cur b now
          @ category_part b @ [(UPDATED_AT, V_INT now)]) tid uid = (res, s')"
          by (simp add: update_task_def)
        then show ?thesis
          using failed plain[OF Some None] by (cases rule: run_update_cases) auto
      next
        case req: (Some n)
        show ?thesis
        proof (cases "n < 0 \<or> n > js_or (max_order_index (tasks s) uid) (- 1) + 1")
          case True
          with assms valid Some cat req failed show ?thesis
            by (auto simp: update_task_def Let_def split: if_splits)
        next
          case inb: False
          show ?thesis
          proof (cases "reorder_shift uid tid (order_index cur) n (tasks s)")
            case None
            with assms valid Some cat req inb failed show ?thesis
              by (auto simp: update_task_def Let_def)
          next
            case sh: (Some shifted)
            with assms valid Some cat req inb
            have "run_update s shifted (field_parts b @ completion_parts (tasks s) uid cur b now
                @ [(ORDER_INDEX, V_INT n)] @ category_part b @ [(UPDATED_AT, V_INT now)]) tid uid
                = (res, s')"
              by (simp add: update_task_def Let_def)
            then show ?thesis
              using failed moved[OF Some req _ _ sh] inb
              by (cases rule: run_update_cases) auto
          qed
        qed
      qed
    qed
  qed
qed


lemma same_id_same_row:
  "distinct (map id' rows) \<Longrightarrow> t \<in> set rows \<Longrightarrow> u \<in> set rows \<Longrightarrow> id' t = id' u \<Longrightarrow> t = u"
  by (meson distinct_map inj_on_eq_iff)

lemma find_SomeD:
  "find P xs = Some x \<Longrightarrow> x \<in> set xs \<and> P x"
  by (induction xs) (auto split: if_splits)

lemma run_update_target:
  assumes d: "distinct (map id' rows)"
    and c: "cur \<in> set rows" "id' cur = tid" "user_id cur = uid"
    and sc: "set_columns sets cur = Some r"
    and ds: "distinct (map fst sets)"
    and noid: "ID \<notin> fst ` set sets" "USER_ID \<notin> fst ` set sets"
  shows "run_update s rows sets tid uid
           = (Inr r, s\<lparr>tasks := map (\<lambda>t. if id' t = tid then r else t) rows\<rparr>)"
proof -
  let ?m = "\<lambda>t. id' t = tid \<and> user_id t = uid"
  define rows' where "rows' = map (\<lambda>t. if id' t = tid then r else t) rows"
  define returned where "returned = filter ?m rows'"
  have only: "t = cur" if "t \<in> set rows" "id' t = tid" for t
    using same_id_same_row[OF d that(1) c(1)] that(2) c(2) by simp
  have r: "id' r = tid" "user_id r = uid"
    using set_columns_frame(1,2)[OF sc] noid c by auto
  have "update_rows (set_columns sets) ?m rows = Some (map (\<lambda>t. if ?m t then r else t) rows)"
    by (rule update_rows_map) (use only sc in auto)
  moreover have "map (\<lambda>t. if ?m t then r else t) rows = rows'"
    unfolding rows'_def
  proof (rule map_cong[OF refl])
    fix t assume "t \<in> set rows"
    then show "(if ?m t then r else t) = (if id' t = tid then r else t)"
      using only[of t] c(3) by (cases "id' t = tid") simp_all
  qed
  ultimately have u: "pg_update_task sets tid uid rows = Some (returned, rows')"
    using ds by (simp add: pg_update_task_def returned_def)
  have "(if id' cur = tid then r else cur) \<in> set rows'"
    unfolding rows'_def set_map using c(1) by (rule imageI)
  with c(2) have "r \<in> set rows'" by simp
  with r have in_ret: "r \<in> set returned" unfolding returned_def set_filter by blast
  have all_r: "x = r" if "x \<in> set returned" for x
  proof -
    from that have m: "?m x" and "x \<in> set rows'" unfolding returned_def set_filter by blast+
    then obtain t where "t \<in> set rows" "x = (if id' t = tid then r else t)"
      unfolding rows'_def set_map by blast
    with m show ?thesis by (cases "id' t = tid") simp_all
  qed
  obtain rest where "returned = r # rest"
  proof (cases returned)
    case Nil
    with in_ret show ?thesis by simp
  next
    case (Cons a rest)
    with all_r[of a] that show ?thesis by simp
  qed
  with u show ?thesis by (simp add: run_update_def rows'_def)
qed






lemma sets_no_id:
  assumes "fst ` set mid \<subseteq> {IS_COMPLETED, COMPLETED_AT, ORDER_INDEX}"
  shows "ID \<notin> fst ` set (field_parts b @ mid @ category_part b @ [(UPDATED_AT, v)])"
    and "USER_ID \<notin> fst ` set (field_parts b @ mid @ category_part b @ [(UPDATED_AT, v)])"
  using assms field_parts_columns[of b] category_part_columns[of b]
  by (simp add: image_Un; blast)+


section \<open>POST /api/tasks: what the handler does\<close>

text \<open>
  The INSERT of the handler names twelve target columns and gives eleven expressions,
  \<open>$1\<close> to \<open>$11\<close>, for twelve parameters: PostgreSQL refuses the statement whatever the
  parameters are.
\<close>

lemma insert_refused:
  "pg_insert_task insertTaskQuery_columns insertTaskQuery_values params rows = None"
  by (simp add: pg_insert_task_def insertTaskQuery_columns_def insertTaskQuery_values_def)

lemma create_task_result:
  "create_task s userId b now taskId =
     (Inl (if \<not> createTaskInputSchema b then VALIDATION_FAILED
           else if (case c_category_id b of
                      Some (Some c) \<Rightarrow> c \<noteq> [] \<and> \<not> category_exists s c userId
                    | _ \<Rightarrow> False) then CATEGORY_NOT_FOUND
           else INTERNAL_ERROR), s)"
  by (simp add: create_task_def insert_refused split: option.splits)

text \<open>
  C9. A create request whose body has no \<open>order_index\<close> fails the input schema: the
  handler answers 400 (validation error) and the database is the one it started from. The
  schema wants a nonnegative \<open>order_index\<close> (a negative one is refused the same way), and
  the handler does not read it: its outcome is the same for every nonnegative value, and
  the value it passes to the INSERT for the column \<open>order_index\<close> is 0.
\<close>

theorem create_without_order_index_rejected:
  "(c_order_index b = None \<longrightarrow> create_task s userId b now taskId = (Inl VALIDATION_FAILED, s)) \<and>
   (\<forall>n. n < 0 \<longrightarrow>
      create_task s userId (b\<lparr>c_order_index := Some n\<rparr>) now taskId = (Inl VALIDATION_FAILED, s)) \<and>
   (\<forall>n m. 0 \<le> n \<and> 0 \<le> m \<longrightarrow>
      create_task s userId (b\<lparr>c_order_index := Some n\<rparr>) now taskId
        = create_task s userId (b\<lparr>c_order_index := Some m\<rparr>) now taskId) \<and>
   insertTaskQuery_columns ! 9 = ORDER_INDEX \<and>
   insertTaskQuery_params userId b now taskId ! 9 = V_INT 0"
  by (simp add: create_task_result createTaskInputSchema_def insertTaskQuery_columns_def
      insertTaskQuery_params_def)

theorem create_without_order_index_rejected_witness:
  "c_order_index (quick_add ''Buy pears'' None) = None \<and>
   create_task seed ''user_002'' (quick_add ''Buy pears'' None) 1679300000000 ''task_016''
     = (Inl VALIDATION_FAILED, seed) \<and>
   create_task seed ''user_002'' (quick_add ''Buy pears'' (Some (- 1))) 1679300000000 ''task_016''
     = (Inl VALIDATION_FAILED, seed) \<and>
   create_task seed ''user_002'' (quick_add ''Buy pears'' (Some 4)) 1679300000000 ''task_016''
     = create_task seed ''user_002'' (quick_add ''Buy pears'' (Some 0)) 1679300000000 ''task_016''"
  using create_without_order_index_rejected
          [of "quick_add ''Buy pears'' None" seed "''user_002''" 1679300000000 "''task_016''"]
  by (simp add: quick_add_def)

text \<open>
  C3. The claim: every create request persists the new task at \<open>order_index\<close> 0 and moves
  the user's incomplete tasks down by one. The handler on the seeded table, for user_002
  and the quick-add body (a title and \<open>order_index\<close> 4, the maximum plus one): the body is
  valid, the answer is 500 and the table is unchanged, so no task is stored and no index
  moves.
\<close>

theorem create_task_persists_nothing:
  "createTaskInputSchema (quick_add ''Buy pears'' (Some 4)) \<and>
   create_task seed ''user_002'' (quick_add ''Buy pears'' (Some 4)) 1679300000000 ''task_016''
     = (Inl INTERNAL_ERROR, seed)"
  by (simp add: create_task_result createTaskInputSchema_def quick_add_def)

section \<open>PATCH /api/tasks/:task_id: the completion timestamp\<close>



section \<open>DELETE /api/tasks/:task_id: what the handler does\<close>

lemma delete_task_result:
  assumes ok: "table_ok s"
  shows "(find (\<lambda>t. id' t = task_id \<and> user_id t = userId) (tasks s) = None \<longrightarrow>
            delete_task s userId task_id = (Inl NOT_FOUND, s)) \<and>
         (\<forall>t. find (\<lambda>t. id' t = task_id \<and> user_id t = userId) (tasks s) = Some t \<longrightarrow>
            delete_task s userId task_id =
              (Inr (), s\<lparr>tasks :=
                 map (\<lambda>r. if \<not> is_completed t \<and> active userId r \<and> order_index t < order_index r
                          then r\<lparr>order_index := order_index r - 1\<rparr> else r)
                     (filter (\<lambda>r. id' r \<noteq> task_id) (tasks s))\<rparr>))"
proof (intro conjI allI impI)
  assume "find (\<lambda>t. id' t = task_id \<and> user_id t = userId) (tasks s) = None"
  then show "delete_task s userId task_id = (Inl NOT_FOUND, s)"
    by (simp add: delete_task_def)
next
  fix t
  assume f: "find (\<lambda>t. id' t = task_id \<and> user_id t = userId) (tasks s) = Some t"
  then have t: "t \<in> set (tasks s)" "id' t = task_id" "user_id t = userId"
    using find_SomeD by fastforce+
  from ok have d: "distinct (map id' (tasks s))"
    and i4: "\<And>r. r \<in> set (tasks s) \<Longrightarrow> int4 (order_index r)"
    by (auto simp: table_ok_def list_all_iff)
  let ?remaining = "filter (\<lambda>r. \<not> (id' r = task_id \<and> user_id r = userId)) (tasks s)"
  have rem: "?remaining = filter (\<lambda>r. id' r \<noteq> task_id) (tasks s)"
    using same_id_same_row[OF d _ t(1)] t(2,3) by (intro filter_cong) auto
  have len: "length ?remaining \<noteq> length (tasks s)"
    using t length_filter_less[of t "tasks s" "\<lambda>r. \<not> (id' r = task_id \<and> user_id r = userId)"]
    by simp
  show "delete_task s userId task_id =
              (Inr (), s\<lparr>tasks :=
                 map (\<lambda>r. if \<not> is_completed t \<and> active userId r \<and> order_index t < order_index r
                          then r\<lparr>order_index := order_index r - 1\<rparr> else r)
                     (filter (\<lambda>r. id' r \<noteq> task_id) (tasks s))\<rparr>)"
  proof (cases "is_completed t")
    case True
    with f len rem show ?thesis
      by (simp add: delete_task_def Let_def)
  next
    case False
    have "pg_shift (\<lambda>r. active userId r \<and> order_index r > order_index t) (- 1) ?remaining
            = Some (map (\<lambda>r. if active userId r \<and> order_index r > order_index t
                              then r\<lparr>order_index := order_index r + - 1\<rparr> else r) ?remaining)"
    proof (rule pg_shift_map)
      fix r assume "r \<in> set ?remaining" "active userId r \<and> order_index t < order_index r"
      with i4[of r] i4[OF t(1)] show "int4 (order_index r + - 1)"
        by (auto simp: int4_def)
    qed
    with f len rem False show ?thesis
      by (simp add: delete_task_def Let_def)
  qed
qed

text \<open>
  C7. On a table whose ids are unique and whose indices are 32-bit: deleting an id the
  caller has no task for answers 404 and leaves the table as it was; deleting a task of
  the caller removes its row, and the other rows are unchanged but for the caller's
  incomplete tasks above the deleted one's index, which move down by one when the deleted
  task was incomplete. Deleting a completed task moves no index.
\<close>

theorem delete_task_effect:
  assumes ok: "table_ok s"
  shows "(find (\<lambda>t. id' t = task_id \<and> user_id t = userId) (tasks s) = None \<longrightarrow>
            delete_task s userId task_id = (Inl NOT_FOUND, s)) \<and>
         (\<forall>t. find (\<lambda>t. id' t = task_id \<and> user_id t = userId) (tasks s) = Some t \<longrightarrow>
            delete_task s userId task_id =
              (Inr (), s\<lparr>tasks :=
                 map (\<lambda>r. if \<not> is_completed t \<and> active userId r \<and> order_index t < order_index r
                          then r\<lparr>order_index := order_index r - 1\<rparr> else r)
                     (filter (\<lambda>r. id' r \<noteq> task_id) (tasks s))\<rparr>))"
  using ok by (rule delete_task_result)

lemma table_ok_seed: "table_ok seed"
  by (simp add: table_ok_def seed_def int4_def)

theorem delete_task_effect_witness:
  "table_ok seed \<and>
   delete_task seed ''user_002'' ''task_404'' = (Inl NOT_FOUND, seed) \<and>
   fst (delete_task seed ''user_002'' ''task_005'') = Inr () \<and>
   map (\<lambda>r. (id' r, order_index r)) (tasks (snd (delete_task seed ''user_002'' ''task_005'')))
     = [(''task_004'', 0), (''task_008'', 1), (''task_009'', 0), (''task_013'', 2),
        (''task_014'', 4)] \<and>
   map (\<lambda>r. (id' r, order_index r)) (tasks (snd (delete_task seed ''user_002'' ''task_014'')))
     = [(''task_004'', 0), (''task_005'', 1), (''task_008'', 2), (''task_009'', 0),
        (''task_013'', 3)]"
  using delete_task_effect[OF table_ok_seed, of "''task_404''" "''user_002''"]
    delete_task_effect[OF table_ok_seed, of "''task_005''" "''user_002''"]
    delete_task_effect[OF table_ok_seed, of "''task_014''" "''user_002''"]
  by (simp add: table_ok_seed) (simp add: seed_def active_def)

section \<open>PATCH /api/tasks/:task_id: reordering\<close>









lemma pg_shift_SomeD:
  "pg_shift p d rows = Some rows' \<Longrightarrow>
     rows' = map (\<lambda>t. if p t then t\<lparr>order_index := order_index t + d\<rparr> else t) rows"
  unfolding pg_shift_def
  by (induction rows arbitrary: rows') (auto simp: set_order_index split: option.splits if_splits)

lemma reorder_shift_SomeD:
  assumes "reorder_shift uid tid old n rows = Some shifted"
  shows "shifted =
     map (\<lambda>t. if active uid t \<and> id' t \<noteq> tid \<and>
                  (if n < old then n \<le> order_index t \<and> order_index t < old
                   else old < order_index t \<and> order_index t \<le> n)
               then t\<lparr>order_index := order_index t + (if n < old then 1 else - 1)\<rparr>
               else t) rows"
proof (cases "n < old")
  case True
  with assms have "pg_shift (\<lambda>t. active uid t \<and> order_index t \<ge> n \<and>
                          order_index t < old \<and> id' t \<noteq> tid) 1 rows = Some shifted"
    by (simp add: reorder_shift_def)
  from pg_shift_SomeD[OF this] True show ?thesis
    by (simp cong: map_cong conj_cong)
next
  case False
  with assms have "pg_shift (\<lambda>t. active uid t \<and> order_index t > old \<and>
                          order_index t \<le> n \<and> id' t \<noteq> tid) (- 1) rows = Some shifted"
    by (simp add: reorder_shift_def)
  from pg_shift_SomeD[OF this] False show ?thesis
    by (simp cong: map_cong conj_cong)
qed

lemma pg_update_task_SomeD:
  assumes "pg_update_task sets tid uid rows = Some (returned, rows')"
    and "cur \<in> set rows" "id' cur = tid" "user_id cur = uid"
  shows "distinct (map fst sets)" and "\<exists>r. set_columns sets cur = Some r"
proof -
  from assms(1) show "distinct (map fst sets)"
    by (auto simp: pg_update_task_def split: if_splits)
  from assms(1) have "update_rows (set_columns sets) (\<lambda>t. id' t = tid \<and> user_id t = uid) rows
      = Some rows'"
    by (auto simp: pg_update_task_def split: if_splits option.splits)
  from update_rows_SomeD[OF this assms(2)] assms(3,4)
  show "\<exists>r. set_columns sets cur = Some r" by auto
qed

lemma update_task_cases_ok:
  assumes "update_task s uid tid b now = (res, s')" and ok: "table_ok s"
  obtains (failed) e where "res = Inl e" "s' = s"
  | (plain) cur r where
      "find (\<lambda>t. id' t = tid \<and> user_id t = uid) (tasks s) = Some cur"
      "reorder_requested b cur = None"
      "set_columns (field_parts b @ (completion_parts (tasks s) uid cur b now @ [])
          @ category_part b @ [(UPDATED_AT, V_INT now)]) cur = Some r"
      "distinct (map fst (field_parts b @ (completion_parts (tasks s) uid cur b now @ [])
          @ category_part b @ [(UPDATED_AT, V_INT now)]))"
      "res = Inr r" "s' = s\<lparr>tasks := map (\<lambda>t. if id' t = tid then r else t) (tasks s)\<rparr>"
  | (moved) cur n shifted r where
      "find (\<lambda>t. id' t = tid \<and> user_id t = uid) (tasks s) = Some cur"
      "reorder_requested b cur = Some n" "0 \<le> n"
      "n \<le> js_or (max_order_index (tasks s) uid) (- 1) + 1"
      "reorder_shift uid tid (order_index cur) n (tasks s) = Some shifted"
      "set_columns (field_parts b @ (completion_parts (tasks s) uid cur b now
          @ [(ORDER_INDEX, V_INT n)]) @ category_part b @ [(UPDATED_AT, V_INT now)]) cur = Some r"
      "distinct (map fst (field_parts b @ (completion_parts (tasks s) uid cur b now
          @ [(ORDER_INDEX, V_INT n)]) @ category_part b @ [(UPDATED_AT, V_INT now)]))"
      "res = Inr r" "s' = s\<lparr>tasks := map (\<lambda>t. if id' t = tid then r else t) shifted\<rparr>"
  using assms(1)
proof (cases rule: update_task_cases)
  case (failed e)
  then show ?thesis by (rule that(1))
next
  case (plain cur r rest rows')
  let ?sets = "field_parts b @ (completion_parts (tasks s) uid cur b now @ [])
          @ category_part b @ [(UPDATED_AT, V_INT now)]"
  from plain(1) have cur: "cur \<in> set (tasks s)" "id' cur = tid" "user_id cur = uid"
    using find_SomeD by fastforce+
  from ok have d: "distinct (map id' (tasks s))" by (simp add: table_ok_def)
  from plain(3) have pu: "pg_update_task ?sets tid uid (tasks s) = Some (r # rest, rows')" by simp
  from pg_update_task_SomeD[OF pu cur] obtain r0 where
    ds: "distinct (map fst ?sets)" and sc: "set_columns ?sets cur = Some r0" by blast
  have sub: "fst ` set (completion_parts (tasks s) uid cur b now @ [])
       \<subseteq> {IS_COMPLETED, COMPLETED_AT, ORDER_INDEX}"
    using completion_parts_columns by simp
  from run_update_target[OF d cur sc ds sets_no_id[OF sub], of s] pu
  have e: "r0 = r"
    "s\<lparr>tasks := rows'\<rparr> = s\<lparr>tasks := map (\<lambda>t. if id' t = tid then r0 else t) (tasks s)\<rparr>"
    by (simp_all add: run_update_def)
  from arg_cong[OF e(2), of tasks] e(1)
  have "r0 = r" "rows' = map (\<lambda>t. if id' t = tid then r0 else t) (tasks s)"
    by simp_all
  with plain sc ds show ?thesis by (intro that(2)[of cur r]) simp_all
next
  case (moved cur n shifted r rest rows')
  let ?sets = "field_parts b @ (completion_parts (tasks s) uid cur b now
          @ [(ORDER_INDEX, V_INT n)]) @ category_part b @ [(UPDATED_AT, V_INT now)]"
  from moved(1) have cur: "cur \<in> set (tasks s)" "id' cur = tid" "user_id cur = uid"
    using find_SomeD by fastforce+
  from ok have d: "distinct (map id' (tasks s))" by (simp add: table_ok_def)
  note sh = reorder_shift_SomeD[OF moved(5)]
  have "map id' shifted = map id' (tasks s)"
    unfolding sh by (simp add: comp_def)
  with d have d': "distinct (map id' shifted)" by simp
  have "cur \<in> set shifted"
    unfolding sh set_map using cur(1,2) by (auto simp: image_iff intro!: bexI[of _ cur])
  note cur' = this cur(2,3)
  from moved(6) have pu: "pg_update_task ?sets tid uid shifted = Some (r # rest, rows')" by simp
  from pg_update_task_SomeD[OF pu cur'] obtain r0 where
    ds: "distinct (map fst ?sets)" and sc: "set_columns ?sets cur = Some r0" by blast
  have sub: "fst ` set (completion_parts (tasks s) uid cur b now @ [(ORDER_INDEX, V_INT n)])
       \<subseteq> {IS_COMPLETED, COMPLETED_AT, ORDER_INDEX}"
    using completion_parts_columns[of "tasks s" uid cur b now] by auto
  from run_update_target[OF d' cur' sc ds sets_no_id[OF sub], of s] pu
  have e: "r0 = r"
    "s\<lparr>tasks := rows'\<rparr> = s\<lparr>tasks := map (\<lambda>t. if id' t = tid then r0 else t) shifted\<rparr>"
    by (simp_all add: run_update_def)
  from arg_cong[OF e(2), of tasks] e(1)
  have "r0 = r" "rows' = map (\<lambda>t. if id' t = tid then r0 else t) shifted"
    by simp_all
  with moved sc ds show ?thesis by (intro that(3)[of cur n shifted r]) simp_all
qed


lemma opt_int_eq:
  "V_INT n = opt_int x \<longleftrightarrow> x = Some n" "V_NULL = opt_int x \<longleftrightarrow> x = None"
proof -
  show "V_INT n = opt_int x \<longleftrightarrow> x = Some n"
    by (cases x) (auto simp: opt_int_def)
  show "V_NULL = opt_int x \<longleftrightarrow> x = None"
    by (cases x) (auto simp: opt_int_def)
qed

lemma columns_split:
  "fst ` set (field_parts b @ (mid @ xs) @ category_part b @ [(UPDATED_AT, V_INT now)])
     = fst ` set (field_parts b) \<union> (fst ` set mid \<union> fst ` set xs)
                  \<union> (fst ` set (category_part b) \<union> {UPDATED_AT})"
  unfolding set_append image_Un by auto

lemma completion_parts_member:
  shows "u_is_completed b = Some v \<Longrightarrow>
           (IS_COMPLETED, V_BOOL v) \<in> set (completion_parts rows uid cur b now)"
    and "u_is_completed b = Some True \<Longrightarrow> \<not> is_completed cur \<Longrightarrow>
           (COMPLETED_AT, V_INT now) \<in> set (completion_parts rows uid cur b now)"
    and "u_is_completed b = Some False \<Longrightarrow>
           (COMPLETED_AT, V_NULL) \<in> set (completion_parts rows uid cur b now)"
    and "u_is_completed b = Some True \<Longrightarrow> is_completed cur \<Longrightarrow>
           COMPLETED_AT \<notin> fst ` set (completion_parts rows uid cur b now)"
  by (simp_all add: completion_parts_def Let_def)

lemma completion_column_only_mid:
  assumes xs: "fst ` set xs \<subseteq> {ORDER_INDEX}"
    and c: "c \<notin> fst ` set mid" "c = IS_COMPLETED \<or> c = COMPLETED_AT"
  shows "c \<notin> fst ` set (field_parts b @ (mid @ xs) @ category_part b @ [(UPDATED_AT, V_INT now)])"
proof -
  have 1: "c \<notin> {TITLE, DESCRIPTION, DUE_DATE_AT, PRIORITY}" "c \<notin> {CATEGORY_ID}"
    "c \<notin> {ORDER_INDEX}" "c \<notin> {UPDATED_AT}"
    using c(2) by auto
  have "c \<notin> fst ` set (field_parts b)"
    using 1(1) field_parts_columns[of b] by (rule contra_subsetD[rotated])
  moreover have "c \<notin> fst ` set (category_part b)"
    using 1(2) category_part_columns[of b] by (rule contra_subsetD[rotated])
  moreover have "c \<notin> fst ` set xs" using 1(3) xs by (rule contra_subsetD[rotated])
  ultimately show ?thesis unfolding columns_split Un_iff using c(1) 1(4) by simp
qed

lemma completion_effect:
  assumes sc: "set_columns (field_parts b @ (completion_parts rows uid cur b now @ xs)
                 @ category_part b @ [(UPDATED_AT, V_INT now)]) cur = Some r"
    and ds: "distinct (map fst (field_parts b @ (completion_parts rows uid cur b now @ xs)
                 @ category_part b @ [(UPDATED_AT, V_INT now)]))"
    and xs: "fst ` set xs \<subseteq> {ORDER_INDEX}"
  shows "is_completed r = (case u_is_completed b of None \<Rightarrow> is_completed cur | Some v \<Rightarrow> v)"
    and "completed_at r =
           (case u_is_completed b of None \<Rightarrow> completed_at cur
            | Some v \<Rightarrow> if v then (if is_completed cur then completed_at cur else Some now)
                        else None)"
proof -
  let ?mid = "completion_parts rows uid cur b now"
  let ?sets = "field_parts b @ (?mid @ xs) @ category_part b @ [(UPDATED_AT, V_INT now)]"
  note others = completion_column_only_mid[OF xs, where mid = ?mid and b = b and now = now]
  have inmid: "a \<in> set ?sets" if "a \<in> set ?mid" for a using that by simp
  note w = set_columns_written[OF sc ds]
  note f = set_columns_frame(4,5)[OF sc]
  note m = completion_parts_member[where b = b and rows = rows and uid = uid and cur = cur and now = now]
  show "is_completed r = (case u_is_completed b of None \<Rightarrow> is_completed cur | Some v \<Rightarrow> v)"
  proof (cases "u_is_completed b")
    case None
    then have "IS_COMPLETED \<notin> fst ` set ?mid" by (simp add: completion_parts_absent)
    from f(1)[OF others[OF this]] None show ?thesis by simp
  next
    case (Some v)
    from w[OF inmid[OF m(1)[OF Some]]] Some show ?thesis by simp
  qed
  show "completed_at r =
           (case u_is_completed b of None \<Rightarrow> completed_at cur
            | Some v \<Rightarrow> if v then (if is_completed cur then completed_at cur else Some now)
                        else None)"
  proof (cases "u_is_completed b")
    case None
    then have "COMPLETED_AT \<notin> fst ` set ?mid" by (simp add: completion_parts_absent)
    from f(2)[OF others[OF this]] None show ?thesis by simp
  next
    case (Some v)
    show ?thesis
    proof (cases v)
      case True
      show ?thesis
      proof (cases "is_completed cur")
        case c: True
        from Some True have "u_is_completed b = Some True" by simp
        from f(2)[OF others[OF m(4)[OF this c]]] Some True c show ?thesis by simp
      next
        case c: False
        from Some True have "u_is_completed b = Some True" by simp
        from w[OF inmid[OF m(2)[OF this c]]] Some True c show ?thesis by (simp add: opt_int_eq)
      qed
    next
      case False
      with Some have "u_is_completed b = Some False" by simp
      from w[OF inmid[OF m(3)[OF this]]] Some False show ?thesis by (simp add: opt_int_eq)
    qed
  qed
qed

lemma completion_keeps_stamped:
  assumes "is_completed r = (case u_is_completed b of None \<Rightarrow> is_completed cur | Some v \<Rightarrow> v)"
    and "completed_at r =
           (case u_is_completed b of None \<Rightarrow> completed_at cur
            | Some v \<Rightarrow> if v then (if is_completed cur then completed_at cur else Some now)
                        else None)"
    and "stamped cur"
  shows "stamped r"
  using assms by (auto simp: stamped_def split: option.splits if_splits)

section \<open>The completion timestamp\<close>

lemma update_completion_effect:
  assumes ok: "table_ok s"
    and found: "find (\<lambda>t. id' t = task_id \<and> user_id t = userId) (tasks s) = Some cur"
    and eq: "update_task s userId task_id b now = (Inr r, s')"
  shows "r \<in> set (tasks s')"
    and "is_completed r = (case u_is_completed b of None \<Rightarrow> is_completed cur | Some v \<Rightarrow> v)"
    and "completed_at r =
           (case u_is_completed b of None \<Rightarrow> completed_at cur
            | Some v \<Rightarrow> if v then (if is_completed cur then completed_at cur else Some now)
                        else None)"
proof -
  from found have cur: "cur \<in> set (tasks s)" "id' cur = task_id"
    using find_SomeD by fastforce+
  have mem: "r \<in> set (map (\<lambda>t. if id' t = task_id then r else t) rows)" if "cur \<in> set rows" for rows
  proof -
    have "(if id' cur = task_id then r else cur) \<in> set (map (\<lambda>t. if id' t = task_id then r else t) rows)"
      unfolding set_map using that by (rule imageI)
    with cur(2) show ?thesis by simp
  qed
  from eq ok have "r \<in> set (tasks s') \<and>
     is_completed r = (case u_is_completed b of None \<Rightarrow> is_completed cur | Some v \<Rightarrow> v) \<and>
     completed_at r =
           (case u_is_completed b of None \<Rightarrow> completed_at cur
            | Some v \<Rightarrow> if v then (if is_completed cur then completed_at cur else Some now)
                        else None)"
  proof (cases rule: update_task_cases_ok)
    case (failed e)
    then show ?thesis by simp
  next
    case (plain cur' r')
    with found have c: "cur' = cur" "r' = r" by simp_all
    from completion_effect[OF plain(3,4)[unfolded c]] mem[OF cur(1)] plain(6) c
    show ?thesis by simp
  next
    case (moved cur' n shifted r')
    with found have c: "cur' = cur" "r' = r" by simp_all
    have "cur \<in> set shifted"
      unfolding reorder_shift_SomeD[OF moved(5)] set_map
      using cur by (auto simp: image_iff intro!: bexI[of _ cur])
    from completion_effect[OF moved(6,7)[unfolded c]] mem[OF this] moved(9) c
    show ?thesis by simp
  qed
  then show "r \<in> set (tasks s')"
    and "is_completed r = (case u_is_completed b of None \<Rightarrow> is_completed cur | Some v \<Rightarrow> v)"
    and "completed_at r =
           (case u_is_completed b of None \<Rightarrow> completed_at cur
            | Some v \<Rightarrow> if v then (if is_completed cur then completed_at cur else Some now)
                        else None)"
    by simp_all
qed


lemma stamped_order_index: "stamped (t\<lparr>order_index := n\<rparr>) = stamped t"
  by (simp add: stamped_def)

lemma list_all_replace:
  "list_all P rows \<Longrightarrow> P r \<Longrightarrow> list_all P (map (\<lambda>t. if c t then r else t) rows)"
  by (induction rows) auto

lemma update_keeps_stamped:
  assumes ok: "table_ok s" and st: "list_all stamped (tasks s)"
  shows "list_all stamped (tasks (snd (update_task s userId task_id b now)))"
proof -
  obtain res s' where eq: "update_task s userId task_id b now = (res, s')"
    by (cases "update_task s userId task_id b now")
  from st have all: "\<And>t. t \<in> set (tasks s) \<Longrightarrow> stamped t" by (simp add: list_all_iff)
  from eq ok have "list_all stamped (tasks s')"
  proof (cases rule: update_task_cases_ok)
    case (failed e)
    with st show ?thesis by simp
  next
    case (plain cur r)
    then have eq': "update_task s userId task_id b now = (Inr r, s')" using eq by simp
    from plain(1) have "cur \<in> set (tasks s)" using find_SomeD by fastforce
    then have "stamped cur" by (rule all)
    with update_completion_effect(2,3)[OF ok plain(1) eq'] have "stamped r"
      by (rule completion_keeps_stamped)
    with st plain(6) show ?thesis by (simp add: list_all_replace)
  next
    case (moved cur n shifted r)
    then have eq': "update_task s userId task_id b now = (Inr r, s')" using eq by simp
    from moved(1) have "cur \<in> set (tasks s)" using find_SomeD by fastforce
    then have "stamped cur" by (rule all)
    with update_completion_effect(2,3)[OF ok moved(1) eq'] have r: "stamped r"
      by (rule completion_keeps_stamped)
    have "list_all stamped shifted"
      unfolding reorder_shift_SomeD[OF moved(5)] list_all_iff using all
      by (auto simp: stamped_order_index)
    with r moved(9) show ?thesis by (simp add: list_all_replace)
  qed
  with eq show ?thesis by simp
qed

lemma delete_keeps_stamped:
  assumes ok: "table_ok s" and st: "list_all stamped (tasks s)"
  shows "list_all stamped (tasks (snd (delete_task s userId task_id)))"
proof (cases "find (\<lambda>t. id' t = task_id \<and> user_id t = userId) (tasks s)")
  case None
  with delete_task_result[OF ok, of task_id userId] st show ?thesis by simp
next
  case (Some t)
  from st have "\<And>t. t \<in> set (tasks s) \<Longrightarrow> stamped t" by (simp add: list_all_iff)
  with delete_task_result[OF ok, of task_id userId] Some show ?thesis
    by (auto simp: list_all_iff stamped_order_index)
qed

text \<open>
  C8. On a table with unique ids in which every row has \<open>completed_at\<close> set exactly when
  \<open>is_completed\<close> is true, the same holds of every row after a create, an update with any
  body and a delete. An update that completes an incomplete task stores the row with
  \<open>completed_at\<close> the time of the request; one that uncompletes a completed task stores it
  with \<open>completed_at\<close> null. The create handler's INSERT parameters give \<open>is_completed\<close>
  false and \<open>completed_at\<close> null.
\<close>

theorem completion_timestamp_invariant:
  assumes "table_ok s" and "list_all stamped (tasks s)"
  shows "list_all stamped (tasks (snd (create_task s userId cb now taskId))) \<and>
         list_all stamped (tasks (snd (update_task s userId task_id b now))) \<and>
         list_all stamped (tasks (snd (delete_task s userId task_id))) \<and>
         (\<forall>cur r s'.
            find (\<lambda>t. id' t = task_id \<and> user_id t = userId) (tasks s) = Some cur \<and>
            update_task s userId task_id b now = (Inr r, s') \<longrightarrow>
              r \<in> set (tasks s') \<and>
              (\<not> is_completed cur \<and> u_is_completed b = Some True \<longrightarrow>
                 is_completed r \<and> completed_at r = Some now) \<and>
              (is_completed cur \<and> u_is_completed b = Some False \<longrightarrow>
                 \<not> is_completed r \<and> completed_at r = None)) \<and>
         insertTaskQuery_columns ! 7 = IS_COMPLETED \<and>
         insertTaskQuery_params userId cb now taskId ! 7 = V_BOOL False \<and>
         insertTaskQuery_columns ! 8 = COMPLETED_AT \<and>
         insertTaskQuery_params userId cb now taskId ! 8 = V_NULL"
proof -
  have "list_all stamped (tasks (snd (create_task s userId cb now taskId)))"
    using assms(2) by (simp add: create_task_result)
  moreover note update_keeps_stamped[OF assms] delete_keeps_stamped[OF assms]
  moreover have "r \<in> set (tasks s') \<and>
              (\<not> is_completed cur \<and> u_is_completed b = Some True \<longrightarrow>
                 is_completed r \<and> completed_at r = Some now) \<and>
              (is_completed cur \<and> u_is_completed b = Some False \<longrightarrow>
                 \<not> is_completed r \<and> completed_at r = None)"
    if "find (\<lambda>t. id' t = task_id \<and> user_id t = userId) (tasks s) = Some cur"
      "update_task s userId task_id b now = (Inr r, s')" for cur r s'
    using update_completion_effect[OF assms(1) that] by simp
  moreover have "insertTaskQuery_columns ! 7 = IS_COMPLETED"
    "insertTaskQuery_params userId cb now taskId ! 7 = V_BOOL False"
    "insertTaskQuery_columns ! 8 = COMPLETED_AT"
    "insertTaskQuery_params userId cb now taskId ! 8 = V_NULL"
    by (simp_all add: insertTaskQuery_columns_def insertTaskQuery_params_def)
  ultimately show ?thesis by blast
qed


lemma stamped_seed: "list_all stamped (tasks seed)"
  by (simp add: seed_def stamped_def)

theorem completion_timestamp_invariant_witness:
  "table_ok seed \<and> list_all stamped (tasks seed) \<and>
   list_all stamped (tasks (snd (update_task seed ''user_002'' ''task_005''
      (no_fields\<lparr>u_is_completed := Some True\<rparr>) 1679300000000))) \<and>
   (\<exists>r s'. update_task seed ''user_002'' ''task_005''
              (no_fields\<lparr>u_is_completed := Some True\<rparr>) 1679300000000 = (Inr r, s') \<and>
           r \<in> set (tasks s') \<and> is_completed r \<and> completed_at r = Some 1679300000000) \<and>
   (\<exists>r s'. update_task seed ''user_002'' ''task_014''
              (no_fields\<lparr>u_is_completed := Some False\<rparr>) 1679300000000 = (Inr r, s') \<and>
           r \<in> set (tasks s') \<and> \<not> is_completed r \<and> completed_at r = None)"
proof -
  note T = completion_timestamp_invariant[OF table_ok_seed stamped_seed,
      where userId = "''user_002''" and now = 1679300000000]
  have f1: "find (\<lambda>t. id' t = ''task_005'' \<and> user_id t = ''user_002'') (tasks seed)
              = Some (tasks seed ! 1)"
    and a1: "\<not> is_completed (tasks seed ! 1)"
    and f2: "find (\<lambda>t. id' t = ''task_014'' \<and> user_id t = ''user_002'') (tasks seed)
              = Some (tasks seed ! 5)"
    and a2: "is_completed (tasks seed ! 5)"
    by (simp_all add: seed_def)
  obtain r1 s1 where e1: "update_task seed ''user_002'' ''task_005''
              (no_fields\<lparr>u_is_completed := Some True\<rparr>) 1679300000000 = (Inr r1, s1)"
    by (simp add: eval_defs seed_def)
  obtain r2 s2 where e2: "update_task seed ''user_002'' ''task_014''
              (no_fields\<lparr>u_is_completed := Some False\<rparr>) 1679300000000 = (Inr r2, s2)"
    by (simp add: eval_defs seed_def)
  have b1: "u_is_completed (no_fields\<lparr>u_is_completed := Some True\<rparr>) = Some True"
    and b2: "u_is_completed (no_fields\<lparr>u_is_completed := Some False\<rparr>) = Some False"
    by simp_all
  from T[where task_id = "''task_005''" and b = "no_fields\<lparr>u_is_completed := Some True\<rparr>"]
    f1 a1 e1 b1
  have c1: "list_all stamped (tasks (snd (update_task seed ''user_002'' ''task_005''
      (no_fields\<lparr>u_is_completed := Some True\<rparr>) 1679300000000)))"
    "r1 \<in> set (tasks s1) \<and> is_completed r1 \<and> completed_at r1 = Some 1679300000000"
    by blast+
  from T[where task_id = "''task_014''" and b = "no_fields\<lparr>u_is_completed := Some False\<rparr>"]
    f2 a2 e2 b2
  have c2: "r2 \<in> set (tasks s2) \<and> \<not> is_completed r2 \<and> completed_at r2 = None"
    by blast
  from c1 c2 e1 e2 table_ok_seed stamped_seed show ?thesis by blast
qed

section \<open>Density of the indices of the incomplete tasks\<close>
































section \<open>PATCH /api/tasks/:task_id on the seeded table\<close>

lemma one_active_reached:
  "snd (delete_task (snd (delete_task (snd (delete_task seed ''user_002'' ''task_005''))
          ''user_002'' ''task_008'')) ''user_002'' ''task_013'') = one_active"
  by (simp add: delete_task_def seed_def one_active_def pg_shift_def set_column_def int4_def
      active_def)

text \<open>
  C2. The claim: completing the task at index i keeps its own index and moves every
  incomplete task of the user above i down by one. The handler, when user_002 completes
  task_005 (index 1) with the dashboard's toggle body: the task is stored completed, with
  the request's time and its index 1, and task_008 and task_013 stay at 2 and 3. The
  completion branch issues no shift statement; the user's incomplete tasks are left at
  0, 2, 3.
\<close>

theorem completing_leaves_a_gap:
  "fst (update_task seed ''user_002'' ''task_005''
          (no_fields\<lparr>u_is_completed := Some True, u_completed_at := Some (Some 1679300000000)\<rparr>)
          1679300000000)
     = Inr ((tasks seed ! 1)\<lparr>is_completed := True, completed_at := Some 1679300000000,
              updated_at := 1679300000000\<rparr>) \<and>
   map (\<lambda>r. (id' r, is_completed r, order_index r))
     (tasks (snd (update_task seed ''user_002'' ''task_005''
          (no_fields\<lparr>u_is_completed := Some True, u_completed_at := Some (Some 1679300000000)\<rparr>)
          1679300000000)))
     = [(''task_004'', False, 0), (''task_005'', True, 1), (''task_008'', False, 2),
        (''task_009'', False, 0), (''task_013'', False, 3), (''task_014'', True, 4)]"
  by (simp add: eval_defs seed_def)

text \<open>
  C4. The claim: an uncompleted task gets the previous maximum index of the user's
  incomplete tasks plus one, whatever \<open>order_index\<close> the request carries. The handler:
  when the maximum is 0, \<open>max || -1\<close> is \<open>-1\<close> and the task gets index 0, the index of
  the task already there (user_002 uncompleting task_014 beside task_004); and when the
  request also carries an \<open>order_index\<close> other than the task's stored one (here 0, on the
  seeded table, where the maximum is 3), the SET list assigns \<open>order_index\<close> twice, the
  UPDATE is refused and the answer is 500 with the table unchanged.
\<close>

theorem uncomplete_duplicates_index_zero:
  "max_order_index (tasks one_active) ''user_002'' = Some 0 \<and>
   map (\<lambda>r. (id' r, user_id r, is_completed r, completed_at r, order_index r))
     (tasks (snd (update_task one_active ''user_002'' ''task_014''
          (no_fields\<lparr>u_is_completed := Some False, u_completed_at := Some None\<rparr>)
          1679300000000)))
     = [(''task_004'', ''user_002'', False, None, 0), (''task_009'', ''user_003'', False, None, 0),
        (''task_014'', ''user_002'', False, None, 0)] \<and>
   max_order_index (tasks seed) ''user_002'' = Some 3 \<and>
   update_task seed ''user_002'' ''task_014''
      (no_fields\<lparr>u_is_completed := Some False, u_order_index := Some 0\<rparr>) 1679300000000
     = (Inl INTERNAL_ERROR, seed)"
  by (simp add: eval_defs seed_def one_active_def)

text \<open>
  C5. The claim: a reorder succeeds exactly when the new index is between 0 and the
  maximum index of the user's incomplete tasks plus one. The handler, for user_003, whose
  one incomplete task task_009 is at index 0: the maximum is 0, the request moves the
  task to index 1 and is answered 400 (out of bounds).
\<close>

theorem reorder_to_end_rejected:
  "max_order_index (tasks seed) ''user_003'' = Some 0 \<and>
   update_task seed ''user_003'' ''task_009'' (no_fields\<lparr>u_order_index := Some 1\<rparr>) 1679300000000
     = (Inl OUT_OF_BOUNDS, seed)"
  by (simp add: eval_defs seed_def)

end
